theory Spec2Isabelle
  imports Main "HOL-Library.Word"
begin

section \<open>Python values, exceptions and effects\<close>

text \<open>
  The backend is one module, \<^verbatim>\<open>app.py\<close>. Its own code is small; what it does is decided
  by the values that cross its boundary: the bytes and the name of an upload, the parsed
  JSON answer of the vision service, and the validation done by the response models.
  A value produced by \<^verbatim>\<open>json.loads\<close> is a \<open>pyval\<close>. A float is carried as the text
  that \<^verbatim>\<open>str()\<close> gives for it, the only thing the program can ever do with one.
  A dictionary is the list of its items, read with \<open>map_of\<close>.
\<close>

datatype pyval =
    PNone
  | PBool bool
  | PInt int
  | PFloat string
  | PStr string
  | PList "pyval list"
  | PDict "(string \<times> pyval) list"

text \<open>
  Exceptions that can reach the handler of \<^verbatim>\<open>_analyze_file\<close>. \<open>ValueError\<close> is the one
  the module raises itself. \<open>Raised m\<close> is any exception coming out of a library call
  (\<^verbatim>\<open>mimetypes.guess_type\<close>, the service client, \<^verbatim>\<open>json.loads\<close>), with \<open>m\<close> its
  \<^verbatim>\<open>str()\<close>. \<open>Runtime\<close> covers the exceptions
  that the interpreter and the model classes raise while the result is built; their message
  text belongs to the interpreter and the library and is a parameter of the environment.
\<close>

datatype fault =
    NoAttribute pyval string
  | NotIterable pyval
  | NotAMapping pyval
  | Invalid string "string list"

datatype exn =
    ValueError string
  | Raised string
  | Runtime fault

text \<open>What leaves \<^verbatim>\<open>analyze\<close> other than a response.\<close>

datatype failure =
    HTTPException nat string
  | Unhandled exn

text \<open>
  The observable effects: reading the stream of an upload (named by the upload's file
  name) and sending one request to the vision service (named by the data URL sent).
\<close>

datatype event =
    FileRead "string option"
  | ServiceCall string

text \<open>
  Two major versions of the validation library are in use, and the module pins neither.
  They differ where this program can see it: version 1 turns numbers into strings for a
  \<^verbatim>\<open>str\<close> field and gives an \<^verbatim>\<open>Optional\<close> field without a default the default
  \<^verbatim>\<open>None\<close>; version 2 accepts only strings and makes such a field required.
\<close>

datatype pydantic_version = V1 | V2

section \<open>Base64\<close>

text \<open>
  \<^verbatim>\<open>base64.b64encode\<close>: the standard alphabet, three bytes to four characters, padding
  with \<open>=\<close>, no line breaks. \<open>b64decode\<close> is the strict inverse used to state the
  round trip; it rejects anything that is not a padded base64 text.
\<close>

type_synonym byte = "8 word"

definition b64_alphabet :: string where
  "b64_alphabet = ''ABCDEFGHIJKLMNOPQRSTUVWXYZabcdefghijklmnopqrstuvwxyz0123456789+/''"

definition b64_char :: "nat \<Rightarrow> char" where
  "b64_char n = b64_alphabet ! n"

fun index_of :: "'a \<Rightarrow> 'a list \<Rightarrow> nat option" where
  "index_of x [] = None"
| "index_of x (y # ys) = (if x = y then Some 0 else map_option Suc (index_of x ys))"

definition b64_value :: "char \<Rightarrow> nat option" where
  "b64_value c = index_of c b64_alphabet"

fun b64encode :: "byte list \<Rightarrow> string" where
  "b64encode [] = []"
| "b64encode [a] =
     (let x = unat a
      in [b64_char (x div 4), b64_char ((x mod 4) * 16), CHR ''='', CHR ''=''])"
| "b64encode [a, b] =
     (let x = unat a; y = unat b
      in [b64_char (x div 4), b64_char ((x mod 4) * 16 + y div 16),
          b64_char ((y mod 16) * 4), CHR ''=''])"
| "b64encode (a # b # c # rest) =
     (let x = unat a; y = unat b; z = unat c
      in [b64_char (x div 4), b64_char ((x mod 4) * 16 + y div 16),
          b64_char ((y mod 16) * 4 + z div 64), b64_char (z mod 64)]) @ b64encode rest"

definition b64_group :: "char \<Rightarrow> char \<Rightarrow> char \<Rightarrow> char \<Rightarrow> byte list option" where
  "b64_group c1 c2 c3 c4 =
     (case (b64_value c1, b64_value c2, b64_value c3, b64_value c4) of
        (Some p, Some q, Some r, Some s) \<Rightarrow>
          Some [of_nat (p * 4 + q div 16), of_nat ((q mod 16) * 16 + r div 4),
                of_nat ((r mod 4) * 64 + s)]
      | _ \<Rightarrow> None)"

definition b64_last_group :: "char \<Rightarrow> char \<Rightarrow> char \<Rightarrow> byte list option" where
  "b64_last_group c1 c2 c3 =
     (if c3 = CHR ''='' then
        (case (b64_value c1, b64_value c2) of
           (Some p, Some q) \<Rightarrow> Some [of_nat (p * 4 + q div 16)]
         | _ \<Rightarrow> None)
      else
        (case (b64_value c1, b64_value c2, b64_value c3) of
           (Some p, Some q, Some r) \<Rightarrow>
             Some [of_nat (p * 4 + q div 16), of_nat ((q mod 16) * 16 + r div 4)]
         | _ \<Rightarrow> None))"

fun b64decode :: "string \<Rightarrow> byte list option" where
  "b64decode [] = Some []"
| "b64decode (c1 # c2 # c3 # c4 # rest) =
     (if rest = [] \<and> c4 = CHR ''='' then b64_last_group c1 c2 c3
      else (case b64_group c1 c2 c3 c4 of
              None \<Rightarrow> None
            | Some bs \<Rightarrow> map_option ((@) bs) (b64decode rest)))"
| "b64decode _ = None"



section \<open>Data model\<close>

text \<open>
  An upload: its optional file name and the bytes that \<^verbatim>\<open>upload.file.read()\<close> returns.
\<close>

datatype UploadFile = UploadFile (filename: "string option") (contents: "byte list")

record ProductOut =
  brand :: "string option"
  product_name :: string
  price :: "string option"

record ImageResult =
  filename :: string
  type :: string
  products :: "ProductOut list"
  error :: "string option"

record AnalyzeResponse =
  results :: "ImageResult list"

text \<open>
  Everything the module takes from outside: \<^verbatim>\<open>mimetypes.guess_type(name)[0]\<close>, the
  service call \<^verbatim>\<open>client.responses.create(...).output_text\<close> (which may answer
  differently depending on what happened before), \<^verbatim>\<open>json.loads\<close>,
  \<^verbatim>\<open>client.api_key\<close>, the version of the validation library and the message text of
  run-time exceptions. For the three calls \<open>Inl m\<close> is an exception whose \<^verbatim>\<open>str()\<close> is
  \<open>m\<close>. \<^verbatim>\<open>guess_type\<close> reads its argument as a URL before it looks at the extension, and
  the URL parser raises on some names, so the lookup has an exception path too.
\<close>

record env =
  guess_type :: "string \<Rightarrow> string + string option"
  responses_create :: "event list \<Rightarrow> string \<Rightarrow> string + string"
  json_loads :: "string \<Rightarrow> string + pyval"
  api_key :: "string option"
  pydantic :: pydantic_version
  fault_text :: "fault \<Rightarrow> string"

section \<open>Validation by the response models\<close>

fun digit_char :: "nat \<Rightarrow> char" where
  "digit_char n = char_of (48 + n)"

fun str_nat :: "nat \<Rightarrow> string" where
  "str_nat n = (if n < 10 then [digit_char n] else str_nat (n div 10) @ [digit_char (n mod 10)])"

definition str_int :: "int \<Rightarrow> string" where
  "str_int i = (if i < 0 then CHR ''-'' # str_nat (nat (- i)) else str_nat (nat i))"

text \<open>A value offered to a field annotated \<^verbatim>\<open>str\<close>.\<close>

fun validate_str :: "pydantic_version \<Rightarrow> pyval \<Rightarrow> string option" where
  "validate_str v (PStr s) = Some s"
| "validate_str V1 (PInt i) = Some (str_int i)"
| "validate_str V1 (PFloat r) = Some r"
| "validate_str V1 (PBool b) = Some (if b then ''True'' else ''False'')"
| "validate_str v x = None"

text \<open>A value offered to a field annotated \<^verbatim>\<open>Optional[str]\<close>.\<close>

fun validate_optional_str :: "pydantic_version \<Rightarrow> pyval \<Rightarrow> string option option" where
  "validate_optional_str v PNone = Some None"
| "validate_optional_str v x = map_option Some (validate_str v x)"

text \<open>
  A keyword argument that may be missing: \<open>required_str\<close> for \<^verbatim>\<open>product_name: str\<close>,
  \<open>optional_str\<close> for \<^verbatim>\<open>brand: Optional[str]\<close> and \<^verbatim>\<open>price: Optional[str]\<close>, which
  have no default in the class body.
\<close>

fun required_str :: "pydantic_version \<Rightarrow> pyval option \<Rightarrow> string option" where
  "required_str v None = None"
| "required_str v (Some x) = validate_str v x"

fun optional_str :: "pydantic_version \<Rightarrow> pyval option \<Rightarrow> string option option" where
  "optional_str V1 None = Some None"
| "optional_str V2 None = None"
| "optional_str v (Some x) = validate_optional_str v x"

definition rejected :: "(string \<times> bool) list \<Rightarrow> string list" where
  "rejected checks = map fst (filter (\<lambda>(name, ok). \<not> ok) checks)"

text \<open>\<^verbatim>\<open>ProductOut(**item)\<close>: the item has to be a mapping; unknown keys are ignored.\<close>

definition ProductOut_init :: "env \<Rightarrow> pyval \<Rightarrow> exn + ProductOut" where
  "ProductOut_init e item =
     (case item of
        PDict kw \<Rightarrow>
          (let b = optional_str (pydantic e) (map_of kw ''brand'');
               n = required_str (pydantic e) (map_of kw ''product_name'');
               p = optional_str (pydantic e) (map_of kw ''price'')
           in case (b, n, p) of
                (Some b', Some n', Some p') \<Rightarrow>
                  Inr \<lparr>brand = b', product_name = n', price = p'\<rparr>
              | _ \<Rightarrow>
                  Inl (Runtime (Invalid ''ProductOut''
                    (rejected [(''brand'', b \<noteq> None), (''product_name'', n \<noteq> None),
                               (''price'', p \<noteq> None)]))))
      | _ \<Rightarrow> Inl (Runtime (NotAMapping item)))"

text \<open>
  \<^verbatim>\<open>ImageResult(filename=..., type=..., products=..., error=...)\<close>. The products are
  already model instances; the file name comes from the upload and may be \<^verbatim>\<open>None\<close>,
  which a \<^verbatim>\<open>str\<close> field rejects in both versions.
\<close>

definition ImageResult_init ::
  "env \<Rightarrow> string option \<Rightarrow> pyval \<Rightarrow> ProductOut list \<Rightarrow> string option \<Rightarrow> exn + ImageResult" where
  "ImageResult_init e fn ty ps err =
     (case (fn, validate_str (pydantic e) ty) of
        (Some f, Some t) \<Rightarrow> Inr \<lparr>filename = f, type = t, products = ps, error = err\<rparr>
      | (f, t) \<Rightarrow>
          Inl (Runtime (Invalid ''ImageResult''
            (rejected [(''filename'', f \<noteq> None), (''type'', t \<noteq> None)]))))"

section \<open>The functions of the module\<close>

text \<open>Python's \<^verbatim>\<open>x or d\<close> on an optional string: \<^verbatim>\<open>None\<close> and \<^verbatim>\<open>""\<close> are both false.\<close>

fun py_or :: "string option \<Rightarrow> string \<Rightarrow> string" where
  "py_or None d = d"
| "py_or (Some s) d = (if s = [] then d else s)"

definition encode_image :: "env \<Rightarrow> UploadFile \<Rightarrow> exn + string" where
  "encode_image e upload =
     (let data = contents upload
      in if data = [] then Inl (ValueError ''empty file'')
         else
           (case guess_type e (py_or (UploadFile.filename upload) []) of
              Inl m \<Rightarrow> Inl (Raised m)
            | Inr guess \<Rightarrow>
                (let mime_type = py_or guess ''image/png'';
                     b64_image = b64encode data
                 in Inr (''data:'' @ mime_type @ '';base64,'' @ b64_image))))"

definition call_model :: "env \<Rightarrow> event list \<Rightarrow> string \<Rightarrow> exn + pyval" where
  "call_model e tr image_data_url =
     (case responses_create e tr image_data_url of
        Inl m \<Rightarrow> Inl (Raised m)
      | Inr output_text \<Rightarrow>
          (case json_loads e output_text of
             Inl m \<Rightarrow> Inl (Raised m)
           | Inr v \<Rightarrow> Inr v))"

text \<open>\<^verbatim>\<open>raw.get(key, default)\<close>: only a dictionary has the method.\<close>

fun py_get :: "pyval \<Rightarrow> string \<Rightarrow> pyval \<Rightarrow> exn + pyval" where
  "py_get (PDict kw) key d = Inr (case map_of kw key of None \<Rightarrow> d | Some v \<Rightarrow> v)"
| "py_get x key d = Inl (Runtime (NoAttribute x ''get''))"

text \<open>
  What a \<^verbatim>\<open>for\<close> loop sees: the elements of a list, the keys of a dictionary, the
  characters of a string; nothing else that JSON yields can be iterated.
\<close>

fun py_iter :: "pyval \<Rightarrow> exn + pyval list" where
  "py_iter (PList xs) = Inr xs"
| "py_iter (PDict kw) = Inr (map (\<lambda>(k, v). PStr k) kw)"
| "py_iter (PStr s) = Inr (map (\<lambda>c. PStr [c]) s)"
| "py_iter x = Inl (Runtime (NotIterable x))"

text \<open>The list comprehension: items in order, the first exception ends it.\<close>

fun build_products :: "env \<Rightarrow> pyval list \<Rightarrow> exn + ProductOut list" where
  "build_products e [] = Inr []"
| "build_products e (item # items) =
     (case ProductOut_init e item of
        Inl x \<Rightarrow> Inl x
      | Inr p \<Rightarrow>
          (case build_products e items of
             Inl x \<Rightarrow> Inl x
           | Inr ps \<Rightarrow> Inr (p # ps)))"

text \<open>The \<^verbatim>\<open>return ImageResult(...)\<close> of the \<^verbatim>\<open>try\<close> block, arguments left to right.\<close>

definition build_result :: "env \<Rightarrow> string option \<Rightarrow> pyval \<Rightarrow> exn + ImageResult" where
  "build_result e fn raw =
     (case py_get raw ''type'' (PStr ''unknown'') of
        Inl x \<Rightarrow> Inl x
      | Inr ty \<Rightarrow>
          (case py_get raw ''extracted'' (PList []) of
             Inl x \<Rightarrow> Inl x
           | Inr extracted \<Rightarrow>
               (case py_iter extracted of
                  Inl x \<Rightarrow> Inl x
                | Inr items \<Rightarrow>
                    (case build_products e items of
                       Inl x \<Rightarrow> Inl x
                     | Inr ps \<Rightarrow> ImageResult_init e fn ty ps None))))"

text \<open>The \<^verbatim>\<open>try\<close> block of \<^verbatim>\<open>_analyze_file\<close>, with the effects it adds to the trace.\<close>

definition try_block :: "env \<Rightarrow> event list \<Rightarrow> UploadFile \<Rightarrow> (exn + ImageResult) \<times> event list" where
  "try_block e tr upload =
     (let tr1 = tr @ [FileRead (UploadFile.filename upload)]
      in case encode_image e upload of
           Inl x \<Rightarrow> (Inl x, tr1)
         | Inr data_url \<Rightarrow>
             (case call_model e tr1 data_url of
                Inl x \<Rightarrow> (Inl x, tr1 @ [ServiceCall data_url])
              | Inr raw \<Rightarrow>
                  (build_result e (UploadFile.filename upload) raw, tr1 @ [ServiceCall data_url])))"

fun str_exc :: "env \<Rightarrow> exn \<Rightarrow> string" where
  "str_exc e (ValueError m) = m"
| "str_exc e (Raised m) = m"
| "str_exc e (Runtime f) = fault_text e f"

text \<open>
  \<^verbatim>\<open>_analyze_file\<close>: whatever the \<^verbatim>\<open>try\<close> block raises is turned into an error result;
  an exception raised while that result is built is not handled by anything.
\<close>

definition analyze_file :: "env \<Rightarrow> event list \<Rightarrow> UploadFile \<Rightarrow> (exn + ImageResult) \<times> event list" where
  "analyze_file e tr upload =
     (case try_block e tr upload of
        (Inr r, tr') \<Rightarrow> (Inr r, tr')
      | (Inl exc, tr') \<Rightarrow>
          (ImageResult_init e (UploadFile.filename upload) (PStr ''error'') []
             (Some (str_exc e exc)), tr'))"

section \<open>The batch\<close>

text \<open>
  \<^verbatim>\<open>asyncio.gather\<close> turns every coroutine into a task and keeps one slot per task, in
  the order of its arguments. The event loop then runs the first step of every task, in
  submission order: the upload is read and encoded; a task whose encoding fails goes
  through its handler and ends at once, any other task hands its request to a worker
  thread and waits. The requests reach the service in an order that is not fixed. When
  the answer to its request is there a task builds its result and ends. A task that ends
  with a result fills its own slot. An exception that leaves a task is what \<^verbatim>\<open>gather\<close>
  raises, the first such exception if there are several; the other tasks are not
  cancelled and run on, so their effects still happen.

  A task of the batch is \<^verbatim>\<open>_analyze_file\<close> on its upload; \<open>task_at e h upload\<close> is its
  outcome when the service has received the requests \<open>h\<close> before the one of this task.
\<close>

definition task_at :: "env \<Rightarrow> event list \<Rightarrow> UploadFile \<Rightarrow> exn + ImageResult" where
  "task_at e h upload =
     fst (analyze_file (e\<lparr>responses_create := (\<lambda>tr. responses_create e h)\<rparr>) [] upload)"

record batch =
  slots :: "ImageResult option list"
  raised :: "exn option"
  trace :: "event list"

definition finish :: "nat \<Rightarrow> exn + ImageResult \<Rightarrow> batch \<Rightarrow> batch" where
  "finish i outcome b =
     (case outcome of
        Inr r \<Rightarrow> b\<lparr>slots := (slots b)[i := Some r]\<rparr>
      | Inl x \<Rightarrow> (case raised b of None \<Rightarrow> b\<lparr>raised := Some x\<rparr> | Some y \<Rightarrow> b))"

text \<open>The first step of every task, the task for \<open>upload # uploads\<close> having index \<open>i\<close>.\<close>

fun start_tasks :: "env \<Rightarrow> UploadFile list \<Rightarrow> nat \<Rightarrow> batch \<Rightarrow> batch" where
  "start_tasks e [] i b = b"
| "start_tasks e (upload # uploads) i b =
     (let b1 = b\<lparr>trace := trace b @ [FileRead (UploadFile.filename upload)]\<rparr>
      in start_tasks e uploads (Suc i)
           (case encode_image e upload of
              Inl x \<Rightarrow> finish i (task_at e [] upload) b1
            | Inr data_url \<Rightarrow> b1))"

fun is_call :: "event \<Rightarrow> bool" where
  "is_call (ServiceCall data_url) = True"
| "is_call (FileRead name) = False"

text \<open>
  The waiting tasks, in the order in which the service receives their requests. The
  service sees the requests that came before; it does not see the reads.
\<close>

fun serve_requests :: "env \<Rightarrow> UploadFile list \<Rightarrow> nat list \<Rightarrow> batch \<Rightarrow> batch" where
  "serve_requests e files [] b = b"
| "serve_requests e files (i # rest) b =
     (if i < length files then
        (case encode_image e (files ! i) of
           Inl x \<Rightarrow> serve_requests e files rest b
         | Inr data_url \<Rightarrow>
             serve_requests e files rest
               (finish i (task_at e (filter is_call (trace b)) (files ! i))
                  (b\<lparr>trace := trace b @ [ServiceCall data_url]\<rparr>)))
      else serve_requests e files rest b)"

text \<open>
  The order of arrival is the parameter \<open>order\<close>: waiting tasks named there come first, in
  that order; the other waiting tasks follow in submission order, so every request is
  received exactly once. A task ends here as soon as its request has been answered.
  Answers that overtake one another would fill the same slots, and the exception is the
  same whichever task raises first (\<open>task_at_exception\<close> below), so the order in which
  the tasks end is not a further parameter.
\<close>

definition arrival_order :: "nat list \<Rightarrow> nat list \<Rightarrow> nat list" where
  "arrival_order waiting order =
     (let first = remdups (filter (\<lambda>i. i \<in> set waiting) order)
      in first @ filter (\<lambda>i. i \<notin> set first) waiting)"

definition filled :: "'a option list \<Rightarrow> 'a list" where
  "filled xs = concat (map (\<lambda>s. case s of None \<Rightarrow> [] | Some r \<Rightarrow> [r]) xs)"

text \<open>
  The outcome of \<^verbatim>\<open>await asyncio.gather(*tasks)\<close> and the effects of the whole batch,
  those of the tasks that run on after an exception included. The trace lists the reads
  of the first steps, then the requests in their order of arrival.
\<close>

definition gather ::
  "env \<Rightarrow> UploadFile list \<Rightarrow> nat list \<Rightarrow> (exn + ImageResult list) \<times> event list" where
  "gather e files order =
     (let n = length files;
          b1 = start_tasks e files 0 \<lparr>slots = replicate n None, raised = None, trace = []\<rparr>;
          waiting = filter (\<lambda>i. \<not> isl (encode_image e (files ! i))) [0..<n];
          b2 = serve_requests e files (arrival_order waiting order) b1
      in case raised b2 of
           Some x \<Rightarrow> (Inl x, trace b2)
         | None \<Rightarrow> (Inr (filled (slots b2)), trace b2))"

definition analyze ::
  "env \<Rightarrow> UploadFile list \<Rightarrow> nat list \<Rightarrow> (failure + AnalyzeResponse) \<times> event list" where
  "analyze e files order =
     (if files = [] then (Inl (HTTPException 400 ''At least one image is required''), [])
      else if length files > 10 then (Inl (HTTPException 400 ''Maximum of 10 images allowed''), [])
      else if py_or (api_key e) [] = [] then
        (Inl (HTTPException 500 ''OPENAI_API_KEY not configured''), [])
      else
        (case gather e files order of
           (Inl x, tr) \<Rightarrow> (Inl (Unhandled x), tr)
         | (Inr rs, tr) \<Rightarrow> (Inr \<lparr>results = rs\<rparr>, tr)))"


section \<open>Notions used to state the properties\<close>

text \<open>
  Reading a data URL back: the text after the last occurrence of a marker. The payload
  of a data URL is what follows \<open>base64,\<close>; a base64 text has no comma, so the last
  occurrence is the one the encoder wrote, whatever the MIME type text is.
  \<open>after_first\<close> is the reading from the left.
\<close>

fun before_first :: "'a list \<Rightarrow> 'a list \<Rightarrow> 'a list option" where
  "before_first m [] = (if m = [] then Some [] else None)"
| "before_first m (x # xs) =
     (if take (length m) (x # xs) = m then Some []
      else map_option ((#) x) (before_first m xs))"

definition after_last :: "'a list \<Rightarrow> 'a list \<Rightarrow> 'a list option" where
  "after_last m s = map_option rev (before_first (rev m) (rev s))"

fun after_first :: "'a list \<Rightarrow> 'a list \<Rightarrow> 'a list option" where
  "after_first m [] = (if m = [] then Some [] else None)"
| "after_first m (x # xs) =
     (if take (length m) (x # xs) = m then Some (drop (length m) (x # xs))
      else after_first m xs)"

definition decode_data_url :: "string \<Rightarrow> byte list option" where
  "decode_data_url s =
     (case after_last ''base64,'' s of None \<Rightarrow> None | Some payload \<Rightarrow> b64decode payload)"

text \<open>
  The two shapes of a result. A result is taken from an extraction \<open>raw\<close> when its type
  is the validated \<open>type\<close> entry (or \<open>unknown\<close>), its products are the validated items of
  the \<open>extracted\<close> entry (or none), and it carries no error. It is error-typed when its
  type is \<open>error\<close>, an error text is set and it has no products.
\<close>

definition from_extraction :: "env \<Rightarrow> pyval \<Rightarrow> ImageResult \<Rightarrow> bool" where
  "from_extraction e raw r =
     (case raw of
        PDict kw \<Rightarrow>
          validate_str (pydantic e)
            (case map_of kw ''type'' of None \<Rightarrow> PStr ''unknown'' | Some v \<Rightarrow> v) = Some (type r)
          \<and> (case py_iter (case map_of kw ''extracted'' of None \<Rightarrow> PList [] | Some v \<Rightarrow> v) of
                Inl x \<Rightarrow> False
              | Inr items \<Rightarrow> build_products e items = Inr (products r))
          \<and> error r = None
      | _ \<Rightarrow> False)"

definition successful :: "env \<Rightarrow> event list \<Rightarrow> UploadFile \<Rightarrow> ImageResult \<Rightarrow> bool" where
  "successful e tr upload r =
     (case encode_image e upload of
        Inl x \<Rightarrow> False
      | Inr data_url \<Rightarrow>
          (case call_model e (tr @ [FileRead (UploadFile.filename upload)]) data_url of
             Inl x \<Rightarrow> False
           | Inr raw \<Rightarrow> from_extraction e raw r))"

definition error_typed :: "ImageResult \<Rightarrow> bool" where
  "error_typed r = (type r = ''error'' \<and> error r \<noteq> None \<and> products r = [])"

text \<open>
  A concrete environment for running the module on examples: a MIME lookup that answers
  as CPython's does on three names (a known extension, a name the URL parser refuses, a
  name that reads as a \<open>data:\<close> URL) and finds nothing for any other name, a service whose
  answer parses to \<open>raw\<close>, a configured credential. \<open>checkout_page\<close> is the
  answer used as the round-trip example.
\<close>

definition checkout_page :: pyval where
  "checkout_page =
     PDict [(''type'', PStr ''checkout page''),
            (''extracted'',
               PList [PDict [(''brand'', PStr ''Nike''),
                             (''product_name'', PStr ''Running Shorts''),
                             (''price'', PStr ''$24.99'')]])]"

definition example_env :: "pydantic_version \<Rightarrow> pyval \<Rightarrow> env" where
  "example_env v raw =
     \<lparr>guess_type =
        (\<lambda>name. if name = ''shot.jpg'' then Inr (Some ''image/jpeg'')
                 else if name = ''//[x.png'' then Inl ''Invalid IPv6 URL''
                 else if name = ''data:text/html,a.png'' then Inr (Some ''text/html'')
                 else Inr None),
      responses_create = (\<lambda>tr url. Inr ''{}''),
      json_loads = (\<lambda>text. Inr raw),
      api_key = Some ''sk-test'',
      pydantic = v,
      fault_text = (\<lambda>f. ''validation failed'')\<rparr>"

text \<open>An answer whose only item has no \<open>brand\<close> key.\<close>

definition missing_brand_page :: pyval where
  "missing_brand_page =
     PDict [(''type'', PStr ''product page''),
            (''extracted'',
               PList [PDict [(''product_name'', PStr ''Running Shorts''),
                             (''price'', PStr ''$24.99'')]])]"

section \<open>Base64: the decoder inverts the encoder\<close>

lemma index_of_nth: "distinct xs \<Longrightarrow> n < length xs \<Longrightarrow> index_of (xs ! n) xs = Some n"
proof (induction xs arbitrary: n)
  case Nil
  then show ?case by simp
next
  case (Cons y ys)
  show ?case
  proof (cases n)
    case 0
    then show ?thesis by simp
  next
    case (Suc m)
    with Cons.prems have "m < length ys" "distinct ys" "ys ! m \<noteq> y"
      by auto
    with Cons.IH[of m] Suc show ?thesis by simp
  qed
qed

lemma b64_alphabet_distinct: "distinct b64_alphabet"
  unfolding b64_alphabet_def by simp

lemma b64_alphabet_length: "length b64_alphabet = 64"
  unfolding b64_alphabet_def by simp

lemma b64_value_char: "n < 64 \<Longrightarrow> b64_value (b64_char n) = Some n"
  unfolding b64_value_def b64_char_def
  by (rule index_of_nth) (simp_all add: b64_alphabet_distinct b64_alphabet_length)

lemma b64_char_in: "n < 64 \<Longrightarrow> b64_char n \<in> set b64_alphabet"
  unfolding b64_char_def by (simp add: b64_alphabet_length)

lemma b64_alphabet_no_pad: "CHR ''='' \<notin> set b64_alphabet" "CHR '','' \<notin> set b64_alphabet"
  "CHR 0x0A \<notin> set b64_alphabet"
  unfolding b64_alphabet_def by simp_all


lemma byte_lt: "unat (a :: byte) < 256"
  using unsigned_less[of a, where 'a = nat] by simp

lemma s1: "x < 256 \<Longrightarrow> x div 4 < (64::nat)" by simp
lemma s2: "y < 256 \<Longrightarrow> (x mod 4) * 16 + y div 16 < (64::nat)"
proof -
  assume "y < 256"
  then have "y div 16 < 16" by simp
  moreover have "x mod 4 \<le> 3" by simp
  ultimately show ?thesis by linarith
qed
lemma s3: "z < 256 \<Longrightarrow> (y mod 16) * 4 + z div 64 < (64::nat)"
proof -
  assume "z < 256"
  then have "z div 64 < 4" by simp
  moreover have "y mod 16 \<le> 15" by simp
  ultimately show ?thesis by linarith
qed
lemma s4: "z mod 64 < (64::nat)" by simp
lemma s5: "(x mod 4) * 16 < (64::nat)"
proof -
  have "x mod 4 \<le> 3" by simp
  then show ?thesis by linarith
qed
lemma s6: "(y mod 16) * 4 < (64::nat)"
proof -
  have "y mod 16 \<le> 15" by simp
  then show ?thesis by linarith
qed
lemma j1: "y < 256 \<Longrightarrow> (x div 4) * 4 + ((x mod 4) * 16 + y div 16) div 16 = (x::nat)"
proof -
  assume "y < 256"
  then have "y div 16 < 16" by simp
  then have "((x mod 4) * 16 + y div 16) div 16 = x mod 4" by simp
  then show ?thesis by simp
qed
lemma j4: "(x div 4) * 4 + ((x mod 4) * 16) div 16 = (x::nat)" by simp
lemma j3: "z < 256 \<Longrightarrow> (((y mod 16) * 4 + z div 64) mod 4) * 64 + z mod 64 = (z::nat)"
proof -
  assume "z < 256"
  then have "z div 64 < 4" by simp
  then have "((y mod 16) * 4 + z div 64) mod 4 = z div 64" by simp
  then show ?thesis by simp
qed
lemma j2: "y < 256 \<Longrightarrow> z < 256 \<Longrightarrow>
  (((x mod 4) * 16 + y div 16) mod 16) * 16 + ((y mod 16) * 4 + z div 64) div 4 = (y::nat)"
proof -
  assume "y < 256" "z < 256"
  then have a: "y div 16 < 16" and b: "z div 64 < 4" by simp_all
  from a have "((x mod 4) * 16 + y div 16) mod 16 = y div 16" by simp
  moreover from b have "((y mod 16) * 4 + z div 64) div 4 = y mod 16" by simp
  ultimately show ?thesis by simp
qed
lemma j5: "y < 256 \<Longrightarrow> (((x mod 4) * 16 + y div 16) mod 16) * 16 + ((y mod 16) * 4) div 4 = (y::nat)"
proof -
  assume "y < 256"
  then have a: "y div 16 < 16" by simp
  from a have "((x mod 4) * 16 + y div 16) mod 16 = y div 16" by simp
  then show ?thesis by simp
qed
lemmas sextet_bounds = s1 s2 s3 s4 s5 s6
lemmas sextet_join = j1 j2 j3 j4 j5

lemma byte_of_unat: "of_nat (unat a) = (a::byte)"
  by simp

lemma b64_group_encode:
  "b64_group (b64_char (unat a div 4)) (b64_char ((unat a mod 4) * 16 + unat b div 16))
     (b64_char ((unat b mod 16) * 4 + unat c div 64)) (b64_char (unat c mod 64))
   = Some [a, b, (c::byte)]"
proof -
  have v: "b64_value (b64_char (unat a div 4)) = Some (unat a div 4)"
    "b64_value (b64_char ((unat a mod 4) * 16 + unat b div 16)) = Some ((unat a mod 4) * 16 + unat b div 16)"
    "b64_value (b64_char ((unat b mod 16) * 4 + unat c div 64)) = Some ((unat b mod 16) * 4 + unat c div 64)"
    "b64_value (b64_char (unat c mod 64)) = Some (unat c mod 64)"
    by (rule b64_value_char, rule sextet_bounds, (rule byte_lt)?)+
  show ?thesis
    unfolding b64_group_def
    by (simp only: v option.case prod.case j1[OF byte_lt] j2[OF byte_lt byte_lt] j3[OF byte_lt]
        byte_of_unat)
qed

lemma b64_char_not_pad: "n < 64 \<Longrightarrow> b64_char n \<noteq> CHR ''=''"
  using b64_char_in[of n] b64_alphabet_no_pad(1) by metis

lemma b64_last_group_one:
  "b64_last_group (b64_char (unat a div 4)) (b64_char ((unat a mod 4) * 16)) CHR ''='' = Some [a::byte]"
proof -
  have v: "b64_value (b64_char (unat a div 4)) = Some (unat a div 4)"
    "b64_value (b64_char ((unat a mod 4) * 16)) = Some ((unat a mod 4) * 16)"
    by (rule b64_value_char, rule sextet_bounds, (rule byte_lt)?)+
  show ?thesis
    unfolding b64_last_group_def
    by (simp only: v option.case prod.case simp_thms if_True j4 byte_of_unat)
qed

lemma b64_last_group_two:
  "b64_last_group (b64_char (unat a div 4)) (b64_char ((unat a mod 4) * 16 + unat b div 16))
     (b64_char ((unat b mod 16) * 4)) = Some [a, b::byte]"
proof -
  have v: "b64_value (b64_char (unat a div 4)) = Some (unat a div 4)"
    "b64_value (b64_char ((unat a mod 4) * 16 + unat b div 16)) = Some ((unat a mod 4) * 16 + unat b div 16)"
    "b64_value (b64_char ((unat b mod 16) * 4)) = Some ((unat b mod 16) * 4)"
    by (rule b64_value_char, rule sextet_bounds, (rule byte_lt)?)+
  have n: "b64_char ((unat b mod 16) * 4) \<noteq> CHR ''=''"
    by (rule b64_char_not_pad) (rule sextet_bounds)
  show ?thesis
    unfolding b64_last_group_def
    by (simp only: n v option.case prod.case if_False j1[OF byte_lt] j5[OF byte_lt] byte_of_unat)
qed

lemma b64decode_encode: "b64decode (b64encode bs) = Some bs"
proof (induction bs rule: b64encode.induct)
  case 1
  show ?case by simp
next
  case (2 a)
  show ?case
    by (simp only: b64encode.simps Let_def b64decode.simps b64_last_group_one simp_thms if_True)
next
  case (3 a b)
  show ?case
    by (simp only: b64encode.simps Let_def b64decode.simps b64_last_group_two simp_thms if_True)
next
  case (4 a b c rest)
  have "b64_char (unat c mod 64) \<noteq> CHR ''=''"
    by (rule b64_char_not_pad) (rule sextet_bounds)
  with 4 show ?case
    by (simp add: b64_group_encode Let_def)
qed

section \<open>The per-image orchestrator\<close>

lemma ImageResult_init_Inr:
  "ImageResult_init e fn ty ps err = Inr r \<longleftrightarrow>
     (\<exists>f t. fn = Some f \<and> validate_str (pydantic e) ty = Some t \<and>
        r = \<lparr>filename = f, type = t, products = ps, error = err\<rparr>)"
  unfolding ImageResult_init_def
  by (auto split: option.splits)

lemma ImageResult_init_unnamed:
  "ImageResult_init e None (PStr t) ps err = Inl (Runtime (Invalid ''ImageResult'' [''filename'']))"
  unfolding ImageResult_init_def rejected_def by simp

lemma ImageResult_init_error:
  "ImageResult_init e (Some f) (PStr t) ps err =
     Inr \<lparr>filename = f, type = t, products = ps, error = err\<rparr>"
  unfolding ImageResult_init_def by simp

lemma build_result_Inr:
  "build_result e fn raw = Inr r \<Longrightarrow> \<exists>f. fn = Some f \<and> ImageResult.filename r = f \<and> error r = None"
  unfolding build_result_def
  by (auto split: sum.splits simp: ImageResult_init_Inr)

lemma try_block_Inr:
  "fst (try_block e tr u) = Inr r \<Longrightarrow> UploadFile.filename u = Some (ImageResult.filename r) \<and> error r = None"
  unfolding try_block_def Let_def
  by (auto split: sum.splits dest: build_result_Inr)

lemma analyze_file_unnamed:
  "UploadFile.filename u = None \<Longrightarrow>
   fst (analyze_file e tr u) = Inl (Runtime (Invalid ''ImageResult'' [''filename'']))"
proof -
  assume n: "UploadFile.filename u = None"
  obtain out tr' where t: "try_block e tr u = (out, tr')" by (cases "try_block e tr u")
  show ?thesis
  proof (cases out)
    case (Inl exc)
    with t n show ?thesis
      by (simp add: analyze_file_def ImageResult_init_unnamed)
  next
    case (Inr r)
    with t have "fst (try_block e tr u) = Inr r" by simp
    from try_block_Inr[OF this] n show ?thesis by simp
  qed
qed

lemma analyze_file_named:
  "UploadFile.filename u = Some f \<Longrightarrow>
   fst (analyze_file e tr u) =
     Inr (case fst (try_block e tr u) of
            Inr r \<Rightarrow> r
          | Inl exc \<Rightarrow> \<lparr>filename = f, type = ''error'', products = [], error = Some (str_exc e exc)\<rparr>)"
  unfolding analyze_file_def
  by (cases "try_block e tr u") (auto split: sum.splits simp: ImageResult_init_error)

lemma analyze_file_trace:
  "snd (analyze_file e tr u) = snd (try_block e tr u)"
  unfolding analyze_file_def
  by (cases "try_block e tr u") (auto split: sum.splits)

lemmas run_defs = analyze_file_def try_block_def encode_image_def call_model_def
  build_result_def ProductOut_init_def ImageResult_init_def rejected_def Let_def
  example_env_def checkout_page_def b64_char_def b64_alphabet_def

text \<open>
  C2. The orchestrator is meant never to raise: the handler catches every exception of the
  \<^verbatim>\<open>try\<close> block. But the handler builds its error result with the upload's file name,
  and for an upload without a file name that construction is itself rejected, with nothing
  left to catch it. For every environment, every history and every content, an upload
  whose file name is \<^verbatim>\<open>None\<close> makes \<^verbatim>\<open>_analyze_file\<close> raise the validation error of
  \<^verbatim>\<open>ImageResult\<close> instead of returning a result.
\<close>

theorem analyze_file_raises_without_filename:
  "fst (analyze_file e tr (UploadFile None data)) =
     Inl (Runtime (Invalid ''ImageResult'' [''filename'']))"
  by (rule analyze_file_unnamed) simp

text \<open>
  C10. Every result the orchestrator returns carries the file name of the upload it was
  given, whether the result comes from the \<^verbatim>\<open>try\<close> block or from the handler.
\<close>

theorem analyze_file_keeps_filename:
  "fst (analyze_file e tr u) = Inr r \<Longrightarrow> UploadFile.filename u = Some (ImageResult.filename r)"
proof -
  assume a: "fst (analyze_file e tr u) = Inr r"
  show ?thesis
  proof (cases "UploadFile.filename u")
    case None
    from analyze_file_unnamed[OF None, of e tr] a show ?thesis by simp
  next
    case (Some f)
    from analyze_file_named[OF Some, of e tr] a
    have r: "r = (case fst (try_block e tr u) of
            Inr r \<Rightarrow> r
          | Inl exc \<Rightarrow> \<lparr>filename = f, type = ''error'', products = [], error = Some (str_exc e exc)\<rparr>)"
      by simp
    show ?thesis
    proof (cases "fst (try_block e tr u)")
      case (Inl exc)
      with r Some show ?thesis by simp
    next
      case (Inr r')
      with r have "r' = r" by simp
      with Inr try_block_Inr[of e tr u r] show ?thesis by simp
    qed
  qed
qed

theorem analyze_file_keeps_filename_witness:
  "fst (analyze_file (example_env V2 checkout_page) [] (UploadFile (Some ''shot.jpg'') [77, 97, 110])) =
     Inr \<lparr>filename = ''shot.jpg'', type = ''checkout page'',
          products = [\<lparr>brand = Some ''Nike'', product_name = ''Running Shorts'',
                       price = Some ''$24.99''\<rparr>],
          error = None\<rparr>
   \<and> fst (analyze_file (example_env V2 checkout_page) [] (UploadFile (Some ''blank.png'') [])) =
     Inr \<lparr>filename = ''blank.png'', type = ''error'', products = [], error = Some ''empty file''\<rparr>
   \<and> UploadFile.filename (UploadFile (Some ''shot.jpg'') [77, 97, 110]) = Some ''shot.jpg''
   \<and> UploadFile.filename (UploadFile (Some ''blank.png'') []) = Some ''blank.png''"
proof -
  have ok: "fst (analyze_file (example_env V2 checkout_page) [] (UploadFile (Some ''shot.jpg'') [77, 97, 110])) =
     Inr \<lparr>filename = ''shot.jpg'', type = ''checkout page'',
          products = [\<lparr>brand = Some ''Nike'', product_name = ''Running Shorts'',
                       price = Some ''$24.99''\<rparr>],
          error = None\<rparr>"
    by (simp add: run_defs)
  have bad: "fst (analyze_file (example_env V2 checkout_page) [] (UploadFile (Some ''blank.png'') [])) =
     Inr \<lparr>filename = ''blank.png'', type = ''error'', products = [], error = Some ''empty file''\<rparr>"
    by (simp add: run_defs)
  from analyze_file_keeps_filename[OF ok] analyze_file_keeps_filename[OF bad] ok bad
  show ?thesis by simp
qed

lemma from_extraction_build:
  "build_result e fn raw = Inr r \<Longrightarrow> from_extraction e raw r"
  unfolding build_result_def from_extraction_def
  by (cases raw) (auto split: sum.splits option.splits simp: ImageResult_init_Inr)

lemma try_block_successful:
  "fst (try_block e tr u) = Inr r \<Longrightarrow> successful e tr u r"
  unfolding try_block_def successful_def Let_def
  by (auto split: sum.splits dest: from_extraction_build)

lemma from_extraction_no_error: "from_extraction e raw r \<Longrightarrow> error r = None"
  by (cases raw) (simp_all add: from_extraction_def)

lemma successful_no_error: "successful e tr u r \<Longrightarrow> error r = None"
  unfolding successful_def
  by (auto split: sum.splits dest: from_extraction_no_error)

lemma analyze_file_Inr_cases:
  assumes "fst (analyze_file e tr u) = Inr r"
  shows "fst (try_block e tr u) = Inr r
     \<or> (\<exists>exc f. fst (try_block e tr u) = Inl exc \<and> UploadFile.filename u = Some f \<and>
           r = \<lparr>filename = f, type = ''error'', products = [], error = Some (str_exc e exc)\<rparr>)"
proof (cases "UploadFile.filename u")
  case None
  from analyze_file_unnamed[OF None, of e tr] assms show ?thesis by simp
next
  case (Some f)
  from analyze_file_named[OF Some, of e tr] assms Some show ?thesis
    by (cases "fst (try_block e tr u)") auto
qed

text \<open>
  C4. Every result the orchestrator returns has exactly one of the two shapes: either it
  is taken from a successful extraction (type and products validated from the service's
  answer, no error text), or it is error-typed (type \<open>error\<close>, an error text set, no
  products). An error text never comes with a type other than \<open>error\<close>.
\<close>

theorem analyze_file_exclusive:
  "fst (analyze_file e tr u) = Inr r \<Longrightarrow>
     ((successful e tr u r \<and> \<not> error_typed r) \<or> (error_typed r \<and> \<not> successful e tr u r))
     \<and> (error r \<noteq> None \<longrightarrow> type r = ''error'')"
proof -
  assume a: "fst (analyze_file e tr u) = Inr r"
  from analyze_file_Inr_cases[OF a] show ?thesis
  proof
    assume "fst (try_block e tr u) = Inr r"
    then have s: "successful e tr u r" by (rule try_block_successful)
    then have "error r = None" by (rule successful_no_error)
    with s show ?thesis by (simp add: error_typed_def)
  next
    assume "\<exists>exc f. fst (try_block e tr u) = Inl exc \<and> UploadFile.filename u = Some f \<and>
           r = \<lparr>filename = f, type = ''error'', products = [], error = Some (str_exc e exc)\<rparr>"
    then have t: "error_typed r" by (auto simp: error_typed_def)
    then have "error r \<noteq> None" by (simp add: error_typed_def)
    with successful_no_error[of e tr u r] have "\<not> successful e tr u r" by blast
    with t show ?thesis by (simp add: error_typed_def)
  qed
qed

theorem analyze_file_exclusive_witness:
  "fst (analyze_file (example_env V1 checkout_page) [] (UploadFile (Some ''cart.jpg'') [1, 2])) =
     Inr \<lparr>filename = ''cart.jpg'', type = ''checkout page'',
          products = [\<lparr>brand = Some ''Nike'', product_name = ''Running Shorts'',
                       price = Some ''$24.99''\<rparr>],
          error = None\<rparr>
   \<and> successful (example_env V1 checkout_page) [] (UploadFile (Some ''cart.jpg'') [1, 2])
       \<lparr>filename = ''cart.jpg'', type = ''checkout page'',
        products = [\<lparr>brand = Some ''Nike'', product_name = ''Running Shorts'',
                     price = Some ''$24.99''\<rparr>],
        error = None\<rparr>
   \<and> fst (analyze_file (example_env V1 checkout_page) [] (UploadFile (Some ''empty.jpg'') [])) =
     Inr \<lparr>filename = ''empty.jpg'', type = ''error'', products = [], error = Some ''empty file''\<rparr>
   \<and> \<not> successful (example_env V1 checkout_page) [] (UploadFile (Some ''empty.jpg'') [])
       \<lparr>filename = ''empty.jpg'', type = ''error'', products = [], error = Some ''empty file''\<rparr>"
proof -
  have ok: "fst (analyze_file (example_env V1 checkout_page) [] (UploadFile (Some ''cart.jpg'') [1, 2])) =
     Inr \<lparr>filename = ''cart.jpg'', type = ''checkout page'',
          products = [\<lparr>brand = Some ''Nike'', product_name = ''Running Shorts'',
                       price = Some ''$24.99''\<rparr>],
          error = None\<rparr>"
    by (simp add: run_defs)
  have bad: "fst (analyze_file (example_env V1 checkout_page) [] (UploadFile (Some ''empty.jpg'') [])) =
     Inr \<lparr>filename = ''empty.jpg'', type = ''error'', products = [], error = Some ''empty file''\<rparr>"
    by (simp add: run_defs)
  from analyze_file_exclusive[OF ok] analyze_file_exclusive[OF bad] ok bad
  show ?thesis by (simp add: error_typed_def)
qed

section \<open>The batch coordinator\<close>

text \<open>
  C3. The three checks come first and in this order: no file gives status 400, more than
  ten files give status 400 (whatever the credential), and only then a missing or empty
  credential gives status 500. In each case the trace of effects is empty: no upload has
  been read and no request has been sent to the service.
\<close>

theorem analyze_checks_before_dispatch:
  "(files = [] \<longrightarrow>
      analyze e files order = (Inl (HTTPException 400 ''At least one image is required''), []))
   \<and> (length files > 10 \<longrightarrow>
      analyze e files order = (Inl (HTTPException 400 ''Maximum of 10 images allowed''), []))
   \<and> (files \<noteq> [] \<and> length files \<le> 10 \<and> (api_key e = None \<or> api_key e = Some []) \<longrightarrow>
      analyze e files order = (Inl (HTTPException 500 ''OPENAI_API_KEY not configured''), []))"
  unfolding analyze_def by auto

theorem analyze_checks_before_dispatch_witness:
  "analyze (example_env V2 checkout_page) [] [] =
     (Inl (HTTPException 400 ''At least one image is required''), [])
   \<and> analyze (example_env V2 checkout_page) (replicate 11 (UploadFile (Some ''shot.jpg'') [77])) [] =
     (Inl (HTTPException 400 ''Maximum of 10 images allowed''), [])
   \<and> analyze ((example_env V2 checkout_page)\<lparr>api_key := None\<rparr>) [UploadFile (Some ''shot.jpg'') [77]] [] =
     (Inl (HTTPException 500 ''OPENAI_API_KEY not configured''), [])
   \<and> analyze ((example_env V2 checkout_page)\<lparr>api_key := Some []\<rparr>) [UploadFile (Some ''shot.jpg'') [77]] [] =
     (Inl (HTTPException 500 ''OPENAI_API_KEY not configured''), [])"
  using analyze_checks_before_dispatch[of "[]" "example_env V2 checkout_page" "[]"]
    analyze_checks_before_dispatch[of "replicate 11 (UploadFile (Some ''shot.jpg'') [77])"
      "example_env V2 checkout_page" "[]"]
    analyze_checks_before_dispatch[of "[UploadFile (Some ''shot.jpg'') [77]]"
      "(example_env V2 checkout_page)\<lparr>api_key := None\<rparr>" "[]"]
    analyze_checks_before_dispatch[of "[UploadFile (Some ''shot.jpg'') [77]]"
      "(example_env V2 checkout_page)\<lparr>api_key := Some []\<rparr>" "[]"]
  by (simp add: example_env_def)

section \<open>The image encoder\<close>

lemma b64encode_chars: "set (b64encode bs) \<subseteq> set b64_alphabet \<union> {CHR ''=''}"
proof (induction bs rule: b64encode.induct)
  case 1
  show ?case by simp
next
  case (2 a)
  show ?case
    by (simp add: Let_def b64_char_in sextet_bounds byte_lt)
next
  case (3 a b)
  show ?case
    by (simp add: Let_def b64_char_in sextet_bounds byte_lt)
next
  case (4 a b c rest)
  then show ?case
    by (simp add: Let_def b64_char_in sextet_bounds byte_lt)
qed

lemma b64encode_length: "length (b64encode bs) = 4 * ((length bs + 2) div 3)"
proof (induction bs rule: b64encode.induct)
  case (4 a b c rest)
  have "(length (a # b # c # rest) + 2) div 3 = Suc ((length rest + 2) div 3)"
    by simp
  with 4 show ?case by (simp add: Let_def)
qed (simp_all add: Let_def)

lemma b64encode_no_comma: "CHR '','' \<notin> set (b64encode bs)"
  using b64encode_chars[of bs] b64_alphabet_no_pad(2) by auto

lemma b64encode_no_newline: "CHR 0x0A \<notin> set (b64encode bs)"
  using b64encode_chars[of bs] b64_alphabet_no_pad(3) by auto

lemma before_first_skip:
  "m \<noteq> [] \<Longrightarrow> hd m \<notin> set xs \<Longrightarrow> before_first m (xs @ m @ rest) = Some xs"
proof (induction xs)
  case Nil
  then show ?case by (cases m) simp_all
next
  case (Cons x xs)
  from Cons.prems obtain a m' where m: "m = a # m'" by (cases m) auto
  with Cons.prems have "x \<noteq> a" by auto
  then have "take (length m) (x # xs @ m @ rest) \<noteq> m" using m by auto
  with Cons show ?case by simp
qed

lemma after_last_found:
  "m \<noteq> [] \<Longrightarrow> last m \<notin> set pl \<Longrightarrow> after_last m (pre @ m @ pl) = Some pl"
  unfolding after_last_def
  using before_first_skip[of "rev m" "rev pl" "rev pre"]
  by (simp add: hd_rev)

lemma decode_data_url_encode:
  "decode_data_url (pre @ ''base64,'' @ b64encode bs) = Some bs"
  unfolding decode_data_url_def
  using after_last_found[of "''base64,''" "b64encode bs" pre] b64encode_no_comma[of bs]
  by (simp add: b64decode_encode)

lemma take_differs:
  "c \<in> set m \<Longrightarrow> c \<notin> set ys \<Longrightarrow> length m \<le> length ys \<Longrightarrow> take (length m) (ys @ zs) \<noteq> m"
proof
  assume a: "c \<in> set m" "c \<notin> set ys" "length m \<le> length ys" "take (length m) (ys @ zs) = m"
  then have "take (length m) ys = m" by simp
  with a(1) have "c \<in> set (take (length m) ys)" by simp
  with a(2) show False using set_take_subset[of "length m" ys] by blast
qed

lemma after_first_step:
  "take (length m) (x # xs) \<noteq> m \<Longrightarrow> after_first m (x # xs) = after_first m xs"
  by simp

lemma after_first_here: "m \<noteq> [] \<Longrightarrow> after_first m (m @ rest) = Some rest"
  by (cases m) simp_all

lemma after_first_found:
  "CHR '','' \<notin> set pre \<Longrightarrow> after_first ''base64,'' (pre @ ''base64,'' @ pl) = Some pl"
proof (induction pre)
  case Nil
  show ?case using after_first_here[of "''base64,''" pl] by simp
next
  case (Cons x pre)
  have eq: "x # (pre @ ''base64,'' @ pl) = ((x # pre) @ ''base64'') @ ('','' @ pl)"
    by simp
  have "take (length ''base64,'') (((x # pre) @ ''base64'') @ ('','' @ pl)) \<noteq> ''base64,''"
    using Cons.prems by (intro take_differs[where c = "CHR '',''"]) simp_all
  then have "take (length ''base64,'') (x # (pre @ ''base64,'' @ pl)) \<noteq> ''base64,''"
    by (subst eq)
  then have "after_first ''base64,'' (x # (pre @ ''base64,'' @ pl)) =
      after_first ''base64,'' (pre @ ''base64,'' @ pl)"
    by (rule after_first_step)
  with Cons show ?case by (simp only: append_Cons set_simps) simp
qed

lemma encode_image_outcomes:
  "encode_image e (UploadFile name data) =
     (if data = [] then Inl (ValueError ''empty file'')
      else case guess_type e (case name of None \<Rightarrow> [] | Some n \<Rightarrow> n) of
             Inl m \<Rightarrow> Inl (Raised m)
           | Inr None \<Rightarrow> Inr (''data:image/png;base64,'' @ b64encode data)
           | Inr (Some t) \<Rightarrow>
               Inr (''data:'' @ (if t = [] then ''image/png'' else t) @ '';base64,'' @ b64encode data))"
  by (cases name)
     (auto simp: encode_image_def Let_def split: sum.splits option.splits)

text \<open>
  C5. The encoder is meant to give a data URL for every non-empty buffer, with the MIME
  type taken from the extension of the file name and \<open>image/png\<close> when that fails. It
  passes the file name to a lookup that reads it as a URL first. For the name
  \<open>//[x.png\<close> the URL parser raises, so the encoder fails on a non-empty buffer although
  the extension is a known one; for the name \<open>data:text/html,a.png\<close> the lookup answers
  \<open>text/html\<close>, which is not what the extension says.
\<close>

theorem encode_image_fails_on_refused_name:
  "encode_image (example_env V2 checkout_page) (UploadFile (Some ''//[x.png'') [137, 80, 78, 71]) =
     Inl (Raised ''Invalid IPv6 URL'')
   \<and> encode_image (example_env V2 checkout_page) (UploadFile (Some ''data:text/html,a.png'') [137, 80, 78, 71]) =
     Inr ''data:text/html;base64,iVBORw==''"
  by (simp add: run_defs)

lemma encode_image_Inr:
  assumes "encode_image e u = Inr s"
  shows "contents u \<noteq> [] \<and>
    (\<exists>g. guess_type e (py_or (UploadFile.filename u) []) = Inr g \<and>
       s = (''data:'' @ py_or g ''image/png'' @ '';'') @ ''base64,'' @ b64encode (contents u))"
  using assms unfolding encode_image_def Let_def
  by (auto split: if_splits sum.splits)

lemma encode_image_returns:
  assumes "contents u \<noteq> []" and "guess_type e (py_or (UploadFile.filename u) []) = Inr g"
  shows "encode_image e u = Inr ((''data:'' @ py_or g ''image/png'' @ '';'') @ ''base64,'' @ b64encode (contents u))"
  using assms unfolding encode_image_def Let_def by simp

text \<open>
  C9. Whatever data URL the encoder returns, decoding what follows \<open>base64,\<close> in it
  gives the buffer back. The encoder does return one for every non-empty buffer whose
  file name the MIME lookup accepts. The marker is looked for from the right; when the
  MIME type text has no comma, looking from the left finds the same place.
\<close>

theorem encode_image_round_trip:
  "(encode_image e u = Inr s \<longrightarrow> decode_data_url s = Some (contents u))
   \<and> (contents u \<noteq> [] \<and> guess_type e (py_or (UploadFile.filename u) []) = Inr g \<longrightarrow>
        (\<exists>s'. encode_image e u = Inr s' \<and> decode_data_url s' = Some (contents u)
           \<and> (CHR '','' \<notin> set (py_or g ''image/png'') \<longrightarrow>
                after_first ''base64,'' s' = after_last ''base64,'' s')))"
proof (intro conjI impI)
  assume "encode_image e u = Inr s"
  from encode_image_Inr[OF this] show "decode_data_url s = Some (contents u)"
    by (auto simp only: decode_data_url_encode)
next
  assume a: "contents u \<noteq> [] \<and> guess_type e (py_or (UploadFile.filename u) []) = Inr g"
  define mime where "mime = py_or g ''image/png''"
  define pl where "pl = b64encode (contents u)"
  have enc: "encode_image e u = Inr ((''data:'' @ mime @ '';'') @ ''base64,'' @ pl)"
    unfolding mime_def pl_def using a by (intro encode_image_returns) simp_all
  have dec: "decode_data_url ((''data:'' @ mime @ '';'') @ ''base64,'' @ pl) = Some (contents u)"
    unfolding pl_def by (rule decode_data_url_encode)
  have last: "after_last ''base64,'' ((''data:'' @ mime @ '';'') @ ''base64,'' @ pl) = Some pl"
    unfolding pl_def
    using after_last_found[of "''base64,''" "b64encode (contents u)" "''data:'' @ mime @ '';''"]
      b64encode_no_comma[of "contents u"] by simp
  have first: "CHR '','' \<notin> set mime \<Longrightarrow>
      after_first ''base64,'' ((''data:'' @ mime @ '';'') @ ''base64,'' @ pl) = Some pl"
    by (rule after_first_found) simp
  from enc dec last first
  show "\<exists>s'. encode_image e u = Inr s' \<and> decode_data_url s' = Some (contents u)
           \<and> (CHR '','' \<notin> set (py_or g ''image/png'') \<longrightarrow>
                after_first ''base64,'' s' = after_last ''base64,'' s')"
    unfolding mime_def[symmetric] by simp
qed

theorem encode_image_round_trip_witness:
  "encode_image (example_env V2 checkout_page) (UploadFile (Some ''shot.jpg'') [77, 97, 110, 33]) =
       Inr ''data:image/jpeg;base64,TWFuIQ==''
   \<and> decode_data_url ''data:image/jpeg;base64,TWFuIQ=='' = Some [77, 97, 110, 33]
   \<and> after_first ''base64,'' ''data:image/jpeg;base64,TWFuIQ=='' = after_last ''base64,'' ''data:image/jpeg;base64,TWFuIQ==''"
proof -
  let ?e = "example_env V2 checkout_page"
  let ?u = "UploadFile (Some ''shot.jpg'') [77, 97, 110, 33]"
  have enc: "encode_image ?e ?u = Inr ''data:image/jpeg;base64,TWFuIQ==''"
    by (simp add: run_defs)
  have g: "contents ?u \<noteq> [] \<and> guess_type ?e (py_or (UploadFile.filename ?u) []) = Inr (Some ''image/jpeg'')"
    by (simp add: example_env_def)
  from encode_image_round_trip[of ?e ?u "''data:image/jpeg;base64,TWFuIQ==''" "Some ''image/jpeg''"] enc g
  show ?thesis by simp
qed

text \<open>
  C1. A batch that passes the three checks is meant to give one result per upload, in
  submission order. With a configured credential and two uploads, the second without a
  file name, both uploads are read and both requests are sent, but the task of the second
  upload raises the validation error of \<^verbatim>\<open>ImageResult\<close> (the defect of C2), \<^verbatim>\<open>gather\<close>
  raises it, and \<^verbatim>\<open>analyze\<close> ends with that exception instead of a response.
\<close>

theorem analyze_raises_on_unnamed_upload:
  "analyze (example_env V2 checkout_page)
     [UploadFile (Some ''shot.jpg'') [77, 97, 110], UploadFile None [77]] [] =
     (Inl (Unhandled (Runtime (Invalid ''ImageResult'' [''filename'']))),
      [FileRead (Some ''shot.jpg''), FileRead None,
       ServiceCall ''data:image/jpeg;base64,TWFu'', ServiceCall ''data:image/png;base64,TQ==''])"
  by code_simp

lemma try_block_answer:
  assumes "encode_image e u = Inr url"
    and "call_model e (tr @ [FileRead (UploadFile.filename u)]) url = Inr raw"
  shows "fst (try_block e tr u) = build_result e (UploadFile.filename u) raw"
  using assms unfolding try_block_def Let_def by simp

lemma analyze_file_answer:
  assumes "encode_image e u = Inr url"
    and "call_model e (tr @ [FileRead (UploadFile.filename u)]) url = Inr raw"
    and "UploadFile.filename u = Some f"
  shows "fst (analyze_file e tr u) =
     Inr (case build_result e (Some f) raw of
            Inr r \<Rightarrow> r
          | Inl exc \<Rightarrow> \<lparr>filename = f, type = ''error'', products = [], error = Some (str_exc e exc)\<rparr>)"
  using analyze_file_named[OF assms(3), of e tr] try_block_answer[OF assms(1,2)] assms(3)
  by simp

lemma build_result_checkout_page:
  "build_result e (Some f) checkout_page =
     Inr \<lparr>filename = f, type = ''checkout page'',
          products = [\<lparr>brand = Some ''Nike'', product_name = ''Running Shorts'',
                       price = Some ''$24.99''\<rparr>],
          error = None\<rparr>"
  by (cases "pydantic e")
     (simp_all add: build_result_def checkout_page_def ProductOut_init_def ImageResult_init_def)

text \<open>
  C7. When the service's answer to the request of an upload parses to the checkout-page
  example, the orchestrator gives, for an upload named \<open>f\<close>, the result with file name
  \<open>f\<close>, type \<open>checkout page\<close>, no error and the one product Nike, Running Shorts, $24.99;
  and any result it returns has that type, that product and no error.
\<close>

theorem checkout_page_round_trip:
  assumes "encode_image e u = Inr url"
    and "call_model e (tr @ [FileRead (UploadFile.filename u)]) url = Inr checkout_page"
  shows "(\<forall>f. UploadFile.filename u = Some f \<longrightarrow>
            fst (analyze_file e tr u) =
              Inr \<lparr>filename = f, type = ''checkout page'',
                   products = [\<lparr>brand = Some ''Nike'', product_name = ''Running Shorts'',
                                price = Some ''$24.99''\<rparr>],
                   error = None\<rparr>)
       \<and> (\<forall>r. fst (analyze_file e tr u) = Inr r \<longrightarrow>
            type r = ''checkout page'' \<and> error r = None \<and>
            products r = [\<lparr>brand = Some ''Nike'', product_name = ''Running Shorts'',
                           price = Some ''$24.99''\<rparr>])"
proof -
  have named: "fst (analyze_file e tr u) =
              Inr \<lparr>filename = f, type = ''checkout page'',
                   products = [\<lparr>brand = Some ''Nike'', product_name = ''Running Shorts'',
                                price = Some ''$24.99''\<rparr>],
                   error = None\<rparr>" if "UploadFile.filename u = Some f" for f
    using analyze_file_answer[OF assms that] by (simp add: build_result_checkout_page)
  have any: "type r = ''checkout page'' \<and> error r = None \<and>
            products r = [\<lparr>brand = Some ''Nike'', product_name = ''Running Shorts'',
                           price = Some ''$24.99''\<rparr>]" if r: "fst (analyze_file e tr u) = Inr r" for r
  proof (cases "UploadFile.filename u")
    case None
    from analyze_file_unnamed[OF None, of e tr] r show ?thesis by simp
  next
    case (Some f)
    from named[OF Some] r show ?thesis by auto
  qed
  from named any show ?thesis by blast
qed


theorem checkout_page_round_trip_witness:
  "encode_image (example_env V1 checkout_page) (UploadFile (Some ''shot.jpg'') [77, 97, 110]) =
     Inr ''data:image/jpeg;base64,TWFu''
   \<and> call_model (example_env V1 checkout_page) [FileRead (Some ''shot.jpg'')]
         ''data:image/jpeg;base64,TWFu'' = Inr checkout_page
   \<and> fst (analyze_file (example_env V1 checkout_page) [] (UploadFile (Some ''shot.jpg'') [77, 97, 110])) =
         Inr \<lparr>filename = ''shot.jpg'', type = ''checkout page'',
              products = [\<lparr>brand = Some ''Nike'', product_name = ''Running Shorts'',
                           price = Some ''$24.99''\<rparr>],
              error = None\<rparr>"
proof -
  let ?e = "example_env V1 checkout_page"
  let ?u = "UploadFile (Some ''shot.jpg'') [77, 97, 110]"
  have enc: "encode_image ?e ?u = Inr ''data:image/jpeg;base64,TWFu''"
    by (simp add: encode_image_def example_env_def b64_char_def b64_alphabet_def)
  have call: "call_model ?e ([] @ [FileRead (UploadFile.filename ?u)]) ''data:image/jpeg;base64,TWFu'' =
      Inr checkout_page"
    by (simp add: call_model_def example_env_def)
  from checkout_page_round_trip[OF enc call] enc call show ?thesis by simp
qed

lemma build_result_Inr_iff:
  "build_result e fn (PDict kw) = Inr r \<longleftrightarrow>
     (\<exists>f t items ps.
        fn = Some f \<and>
        validate_str (pydantic e) (case map_of kw ''type'' of None \<Rightarrow> PStr ''unknown'' | Some v \<Rightarrow> v) = Some t \<and>
        py_iter (case map_of kw ''extracted'' of None \<Rightarrow> PList [] | Some v \<Rightarrow> v) = Inr items \<and>
        build_products e items = Inr ps \<and>
        r = \<lparr>filename = f, type = t, products = ps, error = None\<rparr>)"
  unfolding build_result_def
  by (auto split: sum.splits simp: ImageResult_init_Inr)

lemma handler_error_typed:
  "error_typed \<lparr>filename = f, type = ''error'', products = [], error = Some m\<rparr>"
  by (simp add: error_typed_def)

lemma analyze_file_not_error_typed:
  assumes enc: "encode_image e u = Inr url"
    and call: "call_model e (tr @ [FileRead (UploadFile.filename u)]) url = Inr raw"
    and r: "fst (analyze_file e tr u) = Inr r" and ne: "\<not> error_typed r"
  shows "build_result e (UploadFile.filename u) raw = Inr r"
proof -
  from analyze_file_Inr_cases[OF r] ne have "fst (try_block e tr u) = Inr r"
    by (auto simp: handler_error_typed)
  with try_block_answer[OF enc call] show ?thesis by simp
qed

text \<open>
  C8. Let the service's answer parse to a dictionary. If it has no \<open>type\<close> key and its
  items validate, the result has type \<open>unknown\<close> and those products; if it has no
  \<open>extracted\<close> key and its type validates, the result has that type and no products; if
  it has neither, the result has type \<open>unknown\<close> and no products. None of these results
  carries an error. And any result that is not error-typed has type \<open>unknown\<close> when the
  \<open>type\<close> key is missing and no products when the \<open>extracted\<close> key is missing.
\<close>

theorem omitted_keys_take_defaults:
  assumes enc: "encode_image e u = Inr url"
    and call: "call_model e (tr @ [FileRead (UploadFile.filename u)]) url = Inr (PDict kw)"
  shows "(map_of kw ''type'' = None \<and>
          py_iter (case map_of kw ''extracted'' of None \<Rightarrow> PList [] | Some v \<Rightarrow> v) = Inr items \<and>
          build_products e items = Inr ps \<and> UploadFile.filename u = Some f \<longrightarrow>
            fst (analyze_file e tr u) =
              Inr \<lparr>filename = f, type = ''unknown'', products = ps, error = None\<rparr>)
       \<and> (map_of kw ''extracted'' = None \<and>
          validate_str (pydantic e) (case map_of kw ''type'' of None \<Rightarrow> PStr ''unknown'' | Some v \<Rightarrow> v) = Some t \<and>
          UploadFile.filename u = Some f \<longrightarrow>
            fst (analyze_file e tr u) =
              Inr \<lparr>filename = f, type = t, products = [], error = None\<rparr>)
       \<and> (map_of kw ''type'' = None \<and> map_of kw ''extracted'' = None \<and> UploadFile.filename u = Some f \<longrightarrow>
            fst (analyze_file e tr u) =
              Inr \<lparr>filename = f, type = ''unknown'', products = [], error = None\<rparr>)
       \<and> (\<forall>r. fst (analyze_file e tr u) = Inr r \<and> \<not> error_typed r \<longrightarrow>
            (map_of kw ''type'' = None \<longrightarrow> type r = ''unknown'') \<and>
            (map_of kw ''extracted'' = None \<longrightarrow> products r = []))"
proof (intro conjI impI allI)
  assume a: "map_of kw ''type'' = None \<and>
          py_iter (case map_of kw ''extracted'' of None \<Rightarrow> PList [] | Some v \<Rightarrow> v) = Inr items \<and>
          build_products e items = Inr ps \<and> UploadFile.filename u = Some f"
  then have "build_result e (Some f) (PDict kw) =
      Inr \<lparr>filename = f, type = ''unknown'', products = ps, error = None\<rparr>"
    by (simp add: build_result_Inr_iff)
  with analyze_file_answer[OF enc call, of f] a
  show "fst (analyze_file e tr u) = Inr \<lparr>filename = f, type = ''unknown'', products = ps, error = None\<rparr>"
    by simp
next
  assume a: "map_of kw ''extracted'' = None \<and>
          validate_str (pydantic e) (case map_of kw ''type'' of None \<Rightarrow> PStr ''unknown'' | Some v \<Rightarrow> v) = Some t \<and>
          UploadFile.filename u = Some f"
  then have "build_result e (Some f) (PDict kw) =
      Inr \<lparr>filename = f, type = t, products = [], error = None\<rparr>"
    by (simp add: build_result_Inr_iff)
  with analyze_file_answer[OF enc call, of f] a
  show "fst (analyze_file e tr u) = Inr \<lparr>filename = f, type = t, products = [], error = None\<rparr>"
    by simp
next
  assume a: "map_of kw ''type'' = None \<and> map_of kw ''extracted'' = None \<and> UploadFile.filename u = Some f"
  then have "build_result e (Some f) (PDict kw) =
      Inr \<lparr>filename = f, type = ''unknown'', products = [], error = None\<rparr>"
    by (simp add: build_result_Inr_iff)
  with analyze_file_answer[OF enc call, of f] a
  show "fst (analyze_file e tr u) = Inr \<lparr>filename = f, type = ''unknown'', products = [], error = None\<rparr>"
    by simp
next
  fix r
  assume a: "fst (analyze_file e tr u) = Inr r \<and> \<not> error_typed r"
  then have b: "build_result e (UploadFile.filename u) (PDict kw) = Inr r"
    using analyze_file_not_error_typed[OF enc call] by blast
  {
    assume "map_of kw ''type'' = None"
    with b show "type r = ''unknown''" by (auto simp: build_result_Inr_iff)
  }
  {
    assume "map_of kw ''extracted'' = None"
    with b show "products r = []" by (auto simp: build_result_Inr_iff)
  }
qed

theorem omitted_keys_take_defaults_witness:
  "encode_image (example_env V2 (PDict [])) (UploadFile (Some ''shot.jpg'') [77, 97, 110]) =
     Inr ''data:image/jpeg;base64,TWFu''
   \<and> call_model (example_env V2 (PDict [])) [FileRead (Some ''shot.jpg'')]
         ''data:image/jpeg;base64,TWFu'' = Inr (PDict [])
   \<and> fst (analyze_file (example_env V2 (PDict [])) [] (UploadFile (Some ''shot.jpg'') [77, 97, 110])) =
         Inr \<lparr>filename = ''shot.jpg'', type = ''unknown'', products = [], error = None\<rparr>
   \<and> \<not> error_typed \<lparr>filename = ''shot.jpg'', type = ''unknown'', products = [], error = None\<rparr>"
proof -
  let ?e = "example_env V2 (PDict [])"
  let ?u = "UploadFile (Some ''shot.jpg'') [77, 97, 110]"
  have enc: "encode_image ?e ?u = Inr ''data:image/jpeg;base64,TWFu''"
    by (simp add: encode_image_def example_env_def b64_char_def b64_alphabet_def)
  have call: "call_model ?e ([] @ [FileRead (UploadFile.filename ?u)]) ''data:image/jpeg;base64,TWFu'' =
      Inr (PDict [])"
    by (simp add: call_model_def example_env_def)
  have res: "fst (analyze_file ?e [] ?u) =
      Inr \<lparr>filename = ''shot.jpg'', type = ''unknown'', products = [], error = None\<rparr>"
    by (rule omitted_keys_take_defaults[OF enc call, THEN conjunct2, THEN conjunct2,
          THEN conjunct1, THEN mp]) simp
  from res enc call show ?thesis by (simp add: error_typed_def)
qed

lemma build_products_append:
  "build_products e (xs @ ys) =
     (case build_products e xs of
        Inl x \<Rightarrow> Inl x
      | Inr ps \<Rightarrow> (case build_products e ys of Inl x \<Rightarrow> Inl x | Inr qs \<Rightarrow> Inr (ps @ qs)))"
proof (induction xs)
  case Nil
  show ?case by (simp split: sum.splits)
next
  case (Cons x xs)
  show ?case
  proof (cases "ProductOut_init e x")
    case (Inl a)
    then show ?thesis by simp
  next
    case (Inr p)
    with Cons show ?thesis by (simp split: sum.splits)
  qed
qed

text \<open>
  C6, as stated, fails under version 2 of the validation library: \<^verbatim>\<open>brand: Optional[str]\<close>
  has no default in the class body, so the key is required there (as the JSON schema of
  the request also says), and an item without it makes the whole result error-typed.
\<close>

theorem missing_brand_rejected_by_version_2:
  "fst (analyze_file (example_env V2 missing_brand_page) [] (UploadFile (Some ''shot.jpg'') [77, 97, 110])) =
     Inr \<lparr>filename = ''shot.jpg'', type = ''error'', products = [], error = Some ''validation failed''\<rparr>
   \<and> error_typed \<lparr>filename = ''shot.jpg'', type = ''error'', products = [], error = Some ''validation failed''\<rparr>"
  by (simp add: run_defs missing_brand_page_def error_typed_def)

text \<open>
  C6, amended. Let the service's answer be a dictionary with a string type and a list of
  items, one of which is a dictionary with a valid product name and price, the items
  before and after it being valid. If that item has \<open>brand\<close> set to null, or has no
  \<open>brand\<close> key and the validation library is version 1, the result carries a product
  whose brand is null at that item's place and no error. If the item has no \<open>brand\<close> key
  and the library is version 2, the result is error-typed, its error being the text of
  the validation failure of \<open>brand\<close>.
\<close>

theorem missing_brand_by_version:
  assumes enc: "encode_image e u = Inr url"
    and call: "call_model e (tr @ [FileRead (UploadFile.filename u)]) url = Inr (PDict kw)"
    and named: "UploadFile.filename u = Some f"
    and ty: "map_of kw ''type'' = Some (PStr t)"
    and ex: "map_of kw ''extracted'' = Some (PList (before @ [PDict item] @ after))"
    and pre: "build_products e before = Inr ps"
    and post: "build_products e after = Inr qs"
    and name: "map_of item ''product_name'' = Some (PStr n)"
    and cost: "map_of item ''price'' = Some pv" "validate_optional_str (pydantic e) pv = Some p"
  shows "(map_of item ''brand'' = Some PNone \<or> (map_of item ''brand'' = None \<and> pydantic e = V1) \<longrightarrow>
            fst (analyze_file e tr u) =
              Inr \<lparr>filename = f, type = t,
                   products = ps @ [\<lparr>brand = None, product_name = n, price = p\<rparr>] @ qs,
                   error = None\<rparr>)
       \<and> (map_of item ''brand'' = None \<and> pydantic e = V2 \<longrightarrow>
            fst (analyze_file e tr u) =
              Inr \<lparr>filename = f, type = ''error'', products = [],
                   error = Some (fault_text e (Invalid ''ProductOut'' [''brand'']))\<rparr>)"
proof (intro conjI impI)
  assume a: "map_of item ''brand'' = Some PNone \<or> (map_of item ''brand'' = None \<and> pydantic e = V1)"
  then have "ProductOut_init e (PDict item) = Inr \<lparr>brand = None, product_name = n, price = p\<rparr>"
    using name cost by (auto simp: ProductOut_init_def)
  then have "build_products e (before @ [PDict item] @ after) =
      Inr (ps @ [\<lparr>brand = None, product_name = n, price = p\<rparr>] @ qs)"
    using pre post by (simp add: build_products_append)
  then have "build_result e (Some f) (PDict kw) =
      Inr \<lparr>filename = f, type = t,
           products = ps @ [\<lparr>brand = None, product_name = n, price = p\<rparr>] @ qs, error = None\<rparr>"
    using ty ex by (simp add: build_result_Inr_iff)
  with analyze_file_answer[OF enc call named]
  show "fst (analyze_file e tr u) =
      Inr \<lparr>filename = f, type = t,
           products = ps @ [\<lparr>brand = None, product_name = n, price = p\<rparr>] @ qs, error = None\<rparr>"
    by simp
next
  assume a: "map_of item ''brand'' = None \<and> pydantic e = V2"
  then have "ProductOut_init e (PDict item) = Inl (Runtime (Invalid ''ProductOut'' [''brand'']))"
    using name cost by (simp add: ProductOut_init_def rejected_def)
  then have "build_products e (before @ [PDict item] @ after) =
      Inl (Runtime (Invalid ''ProductOut'' [''brand'']))"
    using pre by (simp add: build_products_append)
  then have "build_result e (Some f) (PDict kw) = Inl (Runtime (Invalid ''ProductOut'' [''brand'']))"
    using ty ex by (simp add: build_result_def)
  with analyze_file_answer[OF enc call named]
  show "fst (analyze_file e tr u) =
      Inr \<lparr>filename = f, type = ''error'', products = [],
           error = Some (fault_text e (Invalid ''ProductOut'' [''brand'']))\<rparr>"
    by simp
qed



theorem missing_brand_by_version_witness:
  "fst (analyze_file (example_env V1 missing_brand_page) [] (UploadFile (Some ''shot.jpg'') [77, 97, 110])) =
     Inr \<lparr>filename = ''shot.jpg'', type = ''product page'',
          products = [\<lparr>brand = None, product_name = ''Running Shorts'', price = Some ''$24.99''\<rparr>],
          error = None\<rparr>
   \<and> fst (analyze_file (example_env V2 missing_brand_page) [] (UploadFile (Some ''shot.jpg'') [77, 97, 110])) =
     Inr \<lparr>filename = ''shot.jpg'', type = ''error'', products = [],
          error = Some ''validation failed''\<rparr>"
proof -
  let ?u = "UploadFile (Some ''shot.jpg'') [77, 97, 110]"
  let ?item = "[(''product_name'', PStr ''Running Shorts''), (''price'', PStr ''$24.99'')]"
  let ?kw = "[(''type'', PStr ''product page''), (''extracted'', PList [PDict ?item])]"
  have enc: "encode_image (example_env v missing_brand_page) ?u = Inr ''data:image/jpeg;base64,TWFu''" for v
    by (simp add: encode_image_def example_env_def b64_char_def b64_alphabet_def)
  have call: "call_model (example_env v missing_brand_page) ([] @ [FileRead (UploadFile.filename ?u)])
      ''data:image/jpeg;base64,TWFu'' = Inr (PDict ?kw)" for v
    by (simp add: call_model_def example_env_def missing_brand_page_def)
  have ex: "map_of ?kw ''extracted'' = Some (PList ([] @ [PDict ?item] @ []))"
    by simp
  have v1: "fst (analyze_file (example_env V1 missing_brand_page) [] ?u) =
     Inr \<lparr>filename = ''shot.jpg'', type = ''product page'',
          products = [] @ [\<lparr>brand = None, product_name = ''Running Shorts'', price = Some ''$24.99''\<rparr>] @ [],
          error = None\<rparr>"
    by (rule missing_brand_by_version[OF enc call _ _ ex, where pv = "PStr ''$24.99''",
          THEN conjunct1, THEN mp])
       (simp_all add: example_env_def)
  have v2: "fst (analyze_file (example_env V2 missing_brand_page) [] ?u) =
     Inr \<lparr>filename = ''shot.jpg'', type = ''error'', products = [],
          error = Some (fault_text (example_env V2 missing_brand_page) (Invalid ''ProductOut'' [''brand'']))\<rparr>"
    by (rule missing_brand_by_version[OF enc call _ _ ex, where pv = "PStr ''$24.99''"
          and p = "Some ''$24.99''" and n = "''Running Shorts''" and ps = "[]" and qs = "[]"
          and t = "''product page''",
          THEN conjunct2, THEN mp])
       (simp_all add: example_env_def)
  from v1 v2 show ?thesis by (simp add: example_env_def)
qed

section \<open>Batches in which every upload carries a file name\<close>

text \<open>
  Outside the defect of C1 and C2 the batch behaves as intended: if every upload has a
  file name, a batch that passes the checks gives one result per upload, the result at
  position \<open>j\<close> being the outcome of the task of upload \<open>j\<close> and carrying its file name,
  whatever the order in which the requests are served.
\<close>

lemma task_at_named:
  "UploadFile.filename u = Some f \<Longrightarrow> \<exists>r. task_at e h u = Inr r \<and> ImageResult.filename r = f"
  unfolding task_at_def
  using analyze_file_named[of u f "e\<lparr>responses_create := (\<lambda>tr. responses_create e h)\<rparr>" "[]"]
  by (auto split: sum.splits dest: try_block_Inr)

lemma task_at_exception:
  "task_at e h u = Inl x \<Longrightarrow>
     UploadFile.filename u = None \<and> x = Runtime (Invalid ''ImageResult'' [''filename''])"
proof (cases "UploadFile.filename u")
  case None
  assume "task_at e h u = Inl x"
  with analyze_file_unnamed[OF None, of "e\<lparr>responses_create := (\<lambda>tr. responses_create e h)\<rparr>" "[]"] None
  show ?thesis by (simp add: task_at_def)
next
  case (Some f)
  assume "task_at e h u = Inl x"
  with task_at_named[OF Some, of e h] show ?thesis by auto
qed

lemma finish_result [simp]:
  "finish i (Inr r) b = b\<lparr>slots := (slots b)[i := Some r]\<rparr>"
  by (simp add: finish_def)

lemma start_tasks_named:
  assumes "\<forall>u \<in> set us. UploadFile.filename u \<noteq> None"
  shows "raised (start_tasks e us i b) = raised b
    \<and> length (slots (start_tasks e us i b)) = length (slots b)
    \<and> (\<forall>j < length (slots b).
          if i \<le> j \<and> j < i + length us \<and> isl (encode_image e (us ! (j - i)))
          then \<exists>r h. slots (start_tasks e us i b) ! j = Some r \<and> task_at e h (us ! (j - i)) = Inr r
          else slots (start_tasks e us i b) ! j = slots b ! j)"
  using assms
proof (induction us arbitrary: i b)
  case Nil
  show ?case by auto
next
  case (Cons u us)
  from Cons.prems obtain f where f: "UploadFile.filename u = Some f" by auto
  from task_at_named[OF f, of e "[]"] obtain r0 where r0: "task_at e [] u = Inr r0" by blast
  define b1 where "b1 = b\<lparr>trace := trace b @ [FileRead (UploadFile.filename u)]\<rparr>"
  define b2 where "b2 = (case encode_image e u of Inl x \<Rightarrow> finish i (task_at e [] u) b1 | Inr url \<Rightarrow> b1)"
  have step: "start_tasks e (u # us) i b = start_tasks e us (Suc i) b2"
    unfolding b2_def b1_def by (simp add: Let_def)
  have b2r: "raised b2 = raised b" and b2l: "length (slots b2) = length (slots b)"
    by (auto simp: b2_def b1_def r0 split: sum.splits)
  have b2s: "slots b2 ! j = (if j = i \<and> isl (encode_image e u) then Some r0 else slots b ! j)"
    if "j < length (slots b)" for j
    using that by (auto simp: b2_def b1_def r0 nth_list_update split: sum.splits)
  from Cons.prems have "\<forall>u \<in> set us. UploadFile.filename u \<noteq> None" by simp
  note IH = Cons.IH[OF this, of "Suc i" b2]
  show ?case
  proof (intro conjI allI impI)
    show "raised (start_tasks e (u # us) i b) = raised b"
      using IH b2r by (simp add: step del: start_tasks.simps)
    show "length (slots (start_tasks e (u # us) i b)) = length (slots b)"
      using IH b2l by (simp add: step del: start_tasks.simps)
  next
    fix j assume j: "j < length (slots b)"
    from IH have all: "\<forall>j < length (slots b2).
          if Suc i \<le> j \<and> j < Suc i + length us \<and> isl (encode_image e (us ! (j - Suc i)))
          then \<exists>r h. slots (start_tasks e us (Suc i) b2) ! j = Some r \<and> task_at e h (us ! (j - Suc i)) = Inr r
          else slots (start_tasks e us (Suc i) b2) ! j = slots b2 ! j"
      by blast
    from j b2l have "j < length (slots b2)" by simp
    from all[rule_format, OF this]
    have ihj: "if Suc i \<le> j \<and> j < Suc i + length us \<and> isl (encode_image e (us ! (j - Suc i)))
          then \<exists>r h. slots (start_tasks e us (Suc i) b2) ! j = Some r \<and> task_at e h (us ! (j - Suc i)) = Inr r
          else slots (start_tasks e us (Suc i) b2) ! j = slots b2 ! j" .
    show "if i \<le> j \<and> j < i + length (u # us) \<and> isl (encode_image e ((u # us) ! (j - i)))
          then \<exists>r h. slots (start_tasks e (u # us) i b) ! j = Some r \<and> task_at e h ((u # us) ! (j - i)) = Inr r
          else slots (start_tasks e (u # us) i b) ! j = slots b ! j"
    proof (cases "j = i")
      case True
      with ihj b2s[OF j] r0 show ?thesis
        by (auto simp: step simp del: start_tasks.simps)
    next
      case False
      show ?thesis
      proof (cases "Suc i \<le> j")
        case True
        then have "(u # us) ! (j - i) = us ! (j - Suc i)"
          by (simp add: Suc_diff_le nth_Cons')
        with ihj b2s[OF j] True False show ?thesis
          by (auto simp: step simp del: start_tasks.simps)
      next
        case False
        with \<open>j \<noteq> i\<close> have "j < i" by simp
        with ihj b2s[OF j] show ?thesis by (auto simp: step simp del: start_tasks.simps)
      qed
    qed
  qed
qed


lemma serve_requests_named:
  assumes "\<forall>u \<in> set files. UploadFile.filename u \<noteq> None"
    and "length (slots b) = length files"
  shows "raised (serve_requests e files is b) = raised b
    \<and> length (slots (serve_requests e files is b)) = length (slots b)
    \<and> (\<forall>j < length files.
          if j \<in> set is \<and> \<not> isl (encode_image e (files ! j))
          then \<exists>r h. slots (serve_requests e files is b) ! j = Some r \<and> task_at e h (files ! j) = Inr r
          else slots (serve_requests e files is b) ! j = slots b ! j)"
  using assms
proof (induction "is" arbitrary: b)
  case Nil
  show ?case by simp
next
  case (Cons i rest)
  show ?case
  proof (cases "i < length files \<and> \<not> isl (encode_image e (files ! i))")
    case False
    then have step: "serve_requests e files (i # rest) b = serve_requests e files rest b"
      by (cases "encode_image e (files ! i)") auto
    from Cons.IH[OF Cons.prems] False show ?thesis
      unfolding step by auto
  next
    case True
    then obtain url where url: "encode_image e (files ! i) = Inr url"
      by (cases "encode_image e (files ! i)") auto
    from True Cons.prems(1) obtain f where f: "UploadFile.filename (files ! i) = Some f"
      by (metis nth_mem not_Some_eq)
    define h0 where "h0 = filter is_call (trace b)"
    from task_at_named[OF f, of e h0] obtain r0 where r0: "task_at e h0 (files ! i) = Inr r0"
      by blast
    define b' where "b' = (b\<lparr>trace := trace b @ [ServiceCall url]\<rparr>)\<lparr>slots := (slots b)[i := Some r0]\<rparr>"
    have step: "serve_requests e files (i # rest) b = serve_requests e files rest b'"
      using True url r0 by (simp add: b'_def h0_def)
    have b'l: "length (slots b') = length files" and b'r: "raised b' = raised b"
      using Cons.prems(2) by (simp_all add: b'_def)
    have b's: "slots b' ! j = (if j = i then Some r0 else slots b ! j)" if "j < length files" for j
      using that Cons.prems(2) by (simp add: b'_def nth_list_update)
    note IH = Cons.IH[OF Cons.prems(1) b'l]
    show ?thesis
    proof (intro conjI allI impI)
      show "raised (serve_requests e files (i # rest) b) = raised b"
        unfolding step using IH b'r by simp
      show "length (slots (serve_requests e files (i # rest) b)) = length (slots b)"
        unfolding step using IH b'l Cons.prems(2) by simp
    next
      fix j assume j: "j < length files"
      from IH have "\<forall>j < length files.
          if j \<in> set rest \<and> \<not> isl (encode_image e (files ! j))
          then \<exists>r h. slots (serve_requests e files rest b') ! j = Some r \<and> task_at e h (files ! j) = Inr r
          else slots (serve_requests e files rest b') ! j = slots b' ! j"
        by blast
      from this[rule_format, OF j]
      have ihj: "if j \<in> set rest \<and> \<not> isl (encode_image e (files ! j))
          then \<exists>r h. slots (serve_requests e files rest b') ! j = Some r \<and> task_at e h (files ! j) = Inr r
          else slots (serve_requests e files rest b') ! j = slots b' ! j" .
      show "if j \<in> set (i # rest) \<and> \<not> isl (encode_image e (files ! j))
          then \<exists>r h. slots (serve_requests e files (i # rest) b) ! j = Some r \<and> task_at e h (files ! j) = Inr r
          else slots (serve_requests e files (i # rest) b) ! j = slots b ! j"
        unfolding step using ihj b's[OF j] r0 True
        by (cases "j = i") (auto split: if_splits)
    qed
  qed
qed

lemma arrival_order_set: "set (arrival_order waiting order) = set waiting"
  unfolding arrival_order_def Let_def by auto

lemma filled_all:
  "\<forall>j < length xs. xs ! j \<noteq> None \<Longrightarrow> filled xs = map the xs"
proof (induction xs)
  case Nil
  show ?case by (simp add: filled_def)
next
  case (Cons x xs)
  from Cons.prems have "x \<noteq> None" by auto
  moreover from Cons.prems have "\<forall>j < length xs. xs ! j \<noteq> None" by auto
  ultimately show ?case using Cons.IH by (auto simp: filled_def)
qed

lemma gather_named:
  assumes named: "\<forall>u \<in> set files. UploadFile.filename u \<noteq> None"
  shows "\<exists>rs. fst (gather e files order) = Inr rs \<and> length rs = length files
     \<and> (\<forall>j < length files. \<exists>h. task_at e h (files ! j) = Inr (rs ! j))"
proof -
  define n where "n = length files"
  define b0 :: batch where "b0 = \<lparr>slots = replicate n None, raised = None, trace = []\<rparr>"
  define b1 where "b1 = start_tasks e files 0 b0"
  define waiting where "waiting = filter (\<lambda>i. \<not> isl (encode_image e (files ! i))) [0..<n]"
  define b2 where "b2 = serve_requests e files (arrival_order waiting order) b1"
  have g: "gather e files order =
      (case raised b2 of Some x \<Rightarrow> (Inl x, trace b2) | None \<Rightarrow> (Inr (filled (slots b2)), trace b2))"
    unfolding gather_def Let_def b2_def waiting_def b1_def b0_def n_def ..
  have b0l: "length (slots b0) = n" by (simp add: b0_def)
  from start_tasks_named[OF named, of e 0 b0]
  have b1r: "raised b1 = None" and b1l: "length (slots b1) = n"
    and b1s: "\<forall>j < n. if isl (encode_image e (files ! j))
          then \<exists>r h. slots b1 ! j = Some r \<and> task_at e h (files ! j) = Inr r
          else slots b1 ! j = slots b0 ! j"
    unfolding b1_def[symmetric] by (auto simp: b0_def n_def)
  from b1l have b1l': "length (slots b1) = length files" by (simp add: n_def)
  from serve_requests_named[OF named b1l', of e "arrival_order waiting order"]
  have b2r: "raised b2 = None" and b2l: "length (slots b2) = n"
    and b2s: "\<forall>j < n. if j \<in> set waiting \<and> \<not> isl (encode_image e (files ! j))
          then \<exists>r h. slots b2 ! j = Some r \<and> task_at e h (files ! j) = Inr r
          else slots b2 ! j = slots b1 ! j"
    unfolding b2_def[symmetric] using b1r b1l by (auto simp: arrival_order_set n_def)
  have all: "\<exists>r h. slots b2 ! j = Some r \<and> task_at e h (files ! j) = Inr r" if j: "j < n" for j
  proof (cases "isl (encode_image e (files ! j))")
    case True
    with b2s j have "slots b2 ! j = slots b1 ! j" by auto
    with b1s j True show ?thesis by auto
  next
    case False
    with j have "j \<in> set waiting" by (simp add: waiting_def)
    with b2s j False show ?thesis by auto
  qed
  then have "\<forall>j < length (slots b2). slots b2 ! j \<noteq> None" using b2l by auto
  then have f: "filled (slots b2) = map the (slots b2)" by (rule filled_all)
  have "fst (gather e files order) = Inr (map the (slots b2))"
    using g b2r f by simp
  moreover have "length (map the (slots b2)) = length files" using b2l by (simp add: n_def)
  moreover have "\<exists>h. task_at e h (files ! j) = Inr (map the (slots b2) ! j)" if "j < length files" for j
    using all[of j] that b2l by (auto simp: n_def)
  ultimately show ?thesis by blast
qed


lemma analyze_named_batch:
  assumes "files \<noteq> []" and "length files \<le> 10" and "py_or (api_key e) [] \<noteq> []"
    and named: "\<forall>u \<in> set files. UploadFile.filename u \<noteq> None"
  shows "\<exists>rs. fst (analyze e files order) = Inr \<lparr>results = rs\<rparr> \<and> length rs = length files
     \<and> (\<forall>j < length files.
          UploadFile.filename (files ! j) = Some (ImageResult.filename (rs ! j))
          \<and> (\<exists>h. task_at e h (files ! j) = Inr (rs ! j)))"
proof -
  from gather_named[OF named, of e order] obtain rs where
    g: "fst (gather e files order) = Inr rs" and l: "length rs = length files"
    and t: "\<forall>j < length files. \<exists>h. task_at e h (files ! j) = Inr (rs ! j)"
    by blast
  have a: "fst (analyze e files order) = Inr \<lparr>results = rs\<rparr>"
    using assms(1-3) g by (cases "gather e files order") (auto simp: analyze_def split: sum.splits)
  have "UploadFile.filename (files ! j) = Some (ImageResult.filename (rs ! j))"
    if j: "j < length files" for j
  proof -
    from j named obtain f where f: "UploadFile.filename (files ! j) = Some f"
      by (metis nth_mem not_Some_eq)
    from t j obtain h where h: "task_at e h (files ! j) = Inr (rs ! j)" by blast
    from task_at_named[OF f, of e h] h f show ?thesis by auto
  qed
  with a l t show ?thesis by blast
qed

end
